theory Spec2Isabelle
  imports Main "HOL-Library.Char_ord" "HOL-Library.List_Lexorder"
begin

section \<open>HuRIC to CoNLL 2009 conversion (huric\_to\_conll.py)\<close>

text \<open>
  The module reads HuRIC XML documents and emits, per frame of a document, one
  row of fifteen string fields per token. The embedding takes the parsed
  element trees as input (what \<open>ET.parse\<close> returns), keeps every raise
  of the source as a value of type \<open>error + 'a\<close> and threads the
  auto-populating label dictionary through the row loop.
\<close>

subsection \<open>Errors\<close>

text \<open>
  \<open>KeyError k\<close>: a dictionary subscript with the missing key \<open>k\<close>.
  \<open>Exception msg pos\<close>: the two arguments of the exception raised by
  \<open>get_fn_pos_by_rules\<close>. \<open>IndexError\<close>: a list subscript out of range.
\<close>

datatype error = KeyError string | Exception string string | IndexError

definition bindE :: "error + 'a \<Rightarrow> ('a \<Rightarrow> error + 'b) \<Rightarrow> error + 'b" where
  "bindE m f = (case m of Inl e \<Rightarrow> Inl e | Inr v \<Rightarrow> f v)"

subsection \<open>Element trees\<close>

text \<open>
  An element has a tag, its attribute dictionary and its children in document
  order. \<open>findall\<close> with a path of child steps \<open>a/b/c\<close> selects, level by
  level, the children carrying the step's tag, in document order.
\<close>

type_synonym attrib = "string \<rightharpoonup> string"

datatype xml = Element (tag: string) (attrib: attrib) (children: "xml list")

definition find_children :: "string \<Rightarrow> xml \<Rightarrow> xml list" where
  "find_children name e = filter (\<lambda>c. tag c = name) (children e)"

fun findall_from :: "string list \<Rightarrow> xml list \<Rightarrow> xml list" where
  "findall_from [] es = es"
| "findall_from (p # ps) es = findall_from ps (concat (map (find_children p) es))"

definition findall :: "string list \<Rightarrow> xml \<Rightarrow> xml list" where
  "findall path e = findall_from path [e]"

text \<open>The subscript \<open>d[k]\<close> on a plain dictionary.\<close>

definition getitem :: "('k \<rightharpoonup> 'v) \<Rightarrow> 'k \<Rightarrow> ('k \<Rightarrow> error) \<Rightarrow> error + 'v" where
  "getitem d k err = (case d k of None \<Rightarrow> Inl (err k) | Some v \<Rightarrow> Inr v)"

abbreviation getattr :: "attrib \<Rightarrow> string \<Rightarrow> error + string" where
  "getattr d k \<equiv> getitem d k KeyError"

subsection \<open>Lookup tables\<close>

definition fn_frame_name_mapping :: "(string \<times> string) list" where
  "fn_frame_name_mapping =
    [(''Entering'', ''Arriving''),
     (''Following'', ''Cotheme''),
     (''Searching'', ''Scrutiny'')]"

definition get_fn_frame_name :: "string \<Rightarrow> string" where
  "get_fn_frame_name huric_name =
    (case map_of fn_frame_name_mapping huric_name of
       Some r \<Rightarrow> r
     | None \<Rightarrow> huric_name)"

definition lu_lemma_mapping :: "(string \<times> string) list" where
  "lu_lemma_mapping =
    [(''halfcarri'', ''carry''),
     (''positioning'', ''position''),
     (''reconnoiter'', ''reconnoitre''),
     (''half-l'', ''lead''),
     (''be'', ''constitute''),
     (''there'', ''constitute''),
     (''along'', ''go''),
     (''let'', ''go''),
     (''up'', ''pick'')]"

definition get_lu_lemma :: "string \<Rightarrow> string" where
  "get_lu_lemma lemma_name =
    (case map_of lu_lemma_mapping lemma_name of
       Some r \<Rightarrow> r
     | None \<Rightarrow> lemma_name)"

definition fe_framenet_mapping :: "(string \<times> string) list" where
  "fe_framenet_mapping =
    [(''Desired_state'', ''Desired_state_of_affairs''),
     (''Reencoding'', ''Re-encoding'')]"

definition get_fe_framenet :: "string \<Rightarrow> string" where
  "get_fe_framenet fe =
    (case map_of fe_framenet_mapping fe of
       Some r \<Rightarrow> r
     | None \<Rightarrow> fe)"

subsection \<open>Part-of-speech rule\<close>

definition get_fn_pos_by_rules :: "string \<Rightarrow> error + string" where
  "get_fn_pos_by_rules pos =
    (if pos = ''JJ'' then Inr ''a''
     else if pos \<in> set [''NN'', ''NNP'', ''NNS''] then Inr ''n''
     else if pos \<in> set [''VB'', ''VBD'', ''VBG'', ''VBN'', ''VBP'', ''VBZ'', ''RP'', ''EX'']
       then Inr ''v''
     else Inl (Exception ''Rule not defined for part-of-speech word'' pos))"

subsection \<open>The converter\<close>

text \<open>
  \<open>deps_by_t_id\<close> is the dictionary comprehension over the \<open>dep\<close>
  elements: keyed by the attribute \<open>to\<close>, a later element replacing an
  earlier one with the same key.
\<close>

fun deps_by_t_id :: "xml list \<Rightarrow> (string \<rightharpoonup> attrib) \<Rightarrow> error + (string \<rightharpoonup> attrib)" where
  "deps_by_t_id [] m = Inr m"
| "deps_by_t_id (d # ds) m =
    bindE (getattr (attrib d) ''to'') (\<lambda>k. deps_by_t_id ds (m(k \<mapsto> attrib d)))"

text \<open>The list comprehension of the lexical unit's token ids.\<close>

fun lus_of :: "xml list \<Rightarrow> error + string list" where
  "lus_of [] = Inr []"
| "lus_of (lu # rest) =
    bindE (getattr (attrib lu) ''id'') (\<lambda>i.
    bindE (lus_of rest) (\<lambda>is. Inr (i # is)))"

text \<open>
  The inner loop over the tokens of one frame element: \<open>n\<close> is
  \<open>len(element_tokens)\<close>, \<open>count\<close> the running index of \<open>enumerate\<close>.
\<close>

definition iob_label :: "nat \<Rightarrow> nat \<Rightarrow> string \<Rightarrow> string" where
  "iob_label n count fe_name =
    (let prefix = (if count = 0 then ''B'' else ''I'');
         prefix = (if n = 1 then ''S'' else prefix)
     in prefix @ ''-'' @ fe_name)"

fun span_loop :: "string \<Rightarrow> nat \<Rightarrow> nat \<Rightarrow> xml list \<Rightarrow> (string \<rightharpoonup> string)
    \<Rightarrow> error + (string \<rightharpoonup> string)" where
  "span_loop fe_name n count [] fe = Inr fe"
| "span_loop fe_name n count (tok # toks) fe =
    bindE (getattr (attrib tok) ''id'') (\<lambda>i.
    span_loop fe_name n (Suc count) toks (fe(i \<mapsto> iob_label n count fe_name)))"

fun fe_loop :: "xml list \<Rightarrow> (string \<rightharpoonup> string) \<Rightarrow> error + (string \<rightharpoonup> string)" where
  "fe_loop [] fe = Inr fe"
| "fe_loop (frame_element # rest) fe =
    bindE (getattr (attrib frame_element) ''type'') (\<lambda>fe_name.
    let fe_name = get_fe_framenet fe_name;
        element_tokens = findall [''token''] frame_element
    in bindE (span_loop fe_name (length element_tokens) 0 element_tokens fe) (\<lambda>fe'.
       fe_loop rest fe'))"

text \<open>
  The subscript on \<open>defaultdict(lambda: 'O')\<close>: a missing key is inserted
  with the value \<open>O\<close>, which is returned.
\<close>

definition dd_getitem :: "(string \<rightharpoonup> string) \<Rightarrow> string \<Rightarrow> string \<times> (string \<rightharpoonup> string)" where
  "dd_getitem fe k = (case fe k of None \<Rightarrow> (''O'', fe(k \<mapsto> ''O'')) | Some v \<Rightarrow> (v, fe))"

text \<open>The subscript chain \<open>deps_by_t_id[t['id']][k]\<close>.\<close>

definition dep_field :: "(string \<rightharpoonup> attrib) \<Rightarrow> attrib \<Rightarrow> string \<Rightarrow> error + string" where
  "dep_field deps t k =
    bindE (getattr t ''id'') (\<lambda>i.
    bindE (getitem deps i KeyError) (\<lambda>d.
    getattr d k))"

text \<open>
  One row: the fifteen list elements are evaluated left to right, so the first
  failing subscript decides the error. The result carries the label dictionary
  after the last column's subscript.
\<close>

definition conll_row :: "string \<Rightarrow> (string \<rightharpoonup> attrib) \<Rightarrow> string list \<Rightarrow> string
    \<Rightarrow> (string \<rightharpoonup> string) \<Rightarrow> attrib \<Rightarrow> error + (string list \<times> (string \<rightharpoonup> string))" where
  "conll_row command_id deps lus frame_name fe t =
    bindE (getattr t ''id'') (\<lambda>c0.
    bindE (getattr t ''surface'') (\<lambda>c1.
    bindE (getattr t ''lemma'') (\<lambda>c2.
    bindE (getattr t ''lemma'') (\<lambda>c3.
    bindE (getattr t ''pos'') (\<lambda>c4.
    bindE (getattr t ''pos'') (\<lambda>c5.
    bindE (dep_field deps t ''from'') (\<lambda>c8.
    bindE (dep_field deps t ''from'') (\<lambda>c9.
    bindE (dep_field deps t ''type'') (\<lambda>c10.
    bindE (dep_field deps t ''type'') (\<lambda>c11.
    bindE (bindE (getattr t ''id'') (\<lambda>i.
             if i \<in> set lus then
               bindE (getattr t ''lemma'') (\<lambda>l.
               bindE (getattr t ''pos'') (\<lambda>p.
               bindE (get_fn_pos_by_rules p) (\<lambda>c.
               Inr (get_lu_lemma l @ ''.'' @ c))))
             else Inr ''_'')) (\<lambda>c12.
    bindE (bindE (getattr t ''id'') (\<lambda>i.
             Inr (if i \<in> set lus then get_fn_frame_name frame_name else ''_''))) (\<lambda>c13.
    bindE (getattr t ''id'') (\<lambda>i.
    case dd_getitem fe i of (c14, fe') \<Rightarrow>
      Inr ([c0, c1, c2, c3, c4, c5, command_id, ''_'', c8, c9, c10, c11, c12, c13, c14],
           fe'))))))))))))))"

text \<open>The list comprehension over the tokens of the sentence.\<close>

fun rows_loop :: "string \<Rightarrow> (string \<rightharpoonup> attrib) \<Rightarrow> string list \<Rightarrow> string
    \<Rightarrow> (string \<rightharpoonup> string) \<Rightarrow> attrib list \<Rightarrow> error + string list list" where
  "rows_loop command_id deps lus frame_name fe [] = Inr []"
| "rows_loop command_id deps lus frame_name fe (t # ts) =
    bindE (conll_row command_id deps lus frame_name fe t) (\<lambda>(row, fe').
    bindE (rows_loop command_id deps lus frame_name fe' ts) (\<lambda>rows.
    Inr (row # rows)))"

text \<open>The body of the loop over the frames of a document.\<close>

definition frame_to_conll :: "string \<Rightarrow> attrib list \<Rightarrow> (string \<rightharpoonup> attrib) \<Rightarrow> xml
    \<Rightarrow> error + string list list" where
  "frame_to_conll command_id tokens deps frame =
    bindE (getattr (attrib frame) ''name'') (\<lambda>frame_name.
    bindE (lus_of (findall [''lexicalUnit'', ''token''] frame)) (\<lambda>lus.
    bindE (fe_loop (findall [''frameElement''] frame) Map.empty) (\<lambda>fe_by_t_id.
    rows_loop command_id deps lus frame_name fe_by_t_id tokens)))"

fun frames_loop :: "string \<Rightarrow> attrib list \<Rightarrow> (string \<rightharpoonup> attrib) \<Rightarrow> xml list
    \<Rightarrow> string list list list \<Rightarrow> error + string list list list" where
  "frames_loop command_id tokens deps [] results = Inr results"
| "frames_loop command_id tokens deps (frame # frames) results =
    bindE (frame_to_conll command_id tokens deps frame) (\<lambda>conll_annotation.
    frames_loop command_id tokens deps frames (results @ [conll_annotation]))"

text \<open>The body of the loop over the files, from the parsed root on.\<close>

definition doc_tokens :: "xml \<Rightarrow> attrib list" where
  "doc_tokens root = map attrib (findall [''tokens'', ''token''] root)"

definition doc_frames :: "xml \<Rightarrow> xml list" where
  "doc_frames root = findall [''semantics'', ''frameSemantics'', ''frame''] root"

definition doc_deps :: "xml \<Rightarrow> error + (string \<rightharpoonup> attrib)" where
  "doc_deps root = deps_by_t_id (findall [''dependencies'', ''dep''] root) Map.empty"

definition doc_to_conll :: "xml \<Rightarrow> string list list list \<Rightarrow> error + string list list list" where
  "doc_to_conll root results =
    bindE (getattr (attrib root) ''id'') (\<lambda>command_id.
    let tokens = doc_tokens root in
    bindE (doc_deps root) (\<lambda>deps.
    frames_loop command_id tokens deps (doc_frames root) results))"

text \<open>
  The driver: the directory is given as its entries, file name and parsed
  document, and is walked in the sorted order of the file names. The printed
  file count is not part of the result and is left out.
\<close>

fun files_loop :: "(string \<times> xml) list \<Rightarrow> string list list list \<Rightarrow> error + string list list list" where
  "files_loop [] results = Inr results"
| "files_loop ((file_name, root) # rest) results =
    bindE (doc_to_conll root results) (\<lambda>results'. files_loop rest results')"

definition huric_xml_to_conll :: "(string \<times> xml) list \<Rightarrow> error + string list list list" where
  "huric_xml_to_conll files = files_loop (sort_key fst files) []"

subsection \<open>The writer\<close>

text \<open>
  The file system is a dictionary from paths to contents. \<open>open(p, 'w')\<close>
  starts from the empty content, every \<open>f.write\<close> appends, and leaving the
  \<open>with\<close> block stores the content under the path, also when the block is
  left by an exception. Tab is the character 9, newline the character 10.
\<close>

definition PATH_CONLL :: string where
  "PATH_CONLL = ''data/neural''"

fun str_join :: "string \<Rightarrow> string list \<Rightarrow> string" where
  "str_join sep [] = []"
| "str_join sep [x] = x"
| "str_join sep (x # y # ys) = x @ sep @ str_join sep (y # ys)"

definition out_path :: "string \<Rightarrow> string" where
  "out_path dataset_name = PATH_CONLL @ ''/'' @ dataset_name"

definition conll_file_loc_mode :: "string \<Rightarrow> string \<Rightarrow> string" where
  "conll_file_loc_mode dataset_name mode =
    out_path dataset_name @ ''/'' @ dataset_name @ ''.'' @ mode @ ''.syntaxnet.conll''"

definition conll_file_loc_fulltext :: "string \<Rightarrow> string" where
  "conll_file_loc_fulltext dataset_name =
    out_path dataset_name @ ''/'' @ dataset_name @ ''.fulltext.train.syntaxnet.conll''"

definition conll_file_loc_sents :: "string \<Rightarrow> string" where
  "conll_file_loc_sents dataset_name =
    out_path dataset_name @ ''/'' @ dataset_name @ ''.fulltext.train.syntaxnet.conll.sents''"

text \<open>The inner loop \<open>for s in seq\<close> and the outer loop \<open>for seq in samples\<close>.\<close>

fun write_seq :: "string list list \<Rightarrow> string \<Rightarrow> string" where
  "write_seq [] f = f"
| "write_seq (s # seq) f = write_seq seq (f @ str_join [CHR 0x09] s @ [CHR 0x0A])"

fun write_conll :: "string list list list \<Rightarrow> string \<Rightarrow> string" where
  "write_conll [] f = f"
| "write_conll (seq # samples) f = write_conll samples (write_seq seq f @ [CHR 0x0A])"

text \<open>
  The comprehension \<open>[w[1] for w in seq]\<close>: the subscript raises on a row
  with fewer than two fields.
\<close>

fun surfaces :: "string list list \<Rightarrow> error + string list" where
  "surfaces [] = Inr []"
| "surfaces (w # seq) =
    (if length w \<le> 1 then Inl IndexError
     else bindE (surfaces seq) (\<lambda>ws. Inr (w ! 1 # ws)))"

fun write_sents :: "string list list list \<Rightarrow> string \<Rightarrow> error option \<times> string" where
  "write_sents [] f = (None, f)"
| "write_sents (seq # samples) f =
    (case surfaces seq of
       Inl e \<Rightarrow> (Some e, f)
     | Inr ws \<Rightarrow> write_sents samples (f @ str_join '' '' ws @ [CHR 0x0A]))"

text \<open>
  The result is the exception that ended the call, if any, and the file system
  as the call leaves it.
\<close>

definition write_conll_samples :: "string list list list \<Rightarrow> string \<Rightarrow> string
    \<Rightarrow> (string \<rightharpoonup> string) \<Rightarrow> error option \<times> (string \<rightharpoonup> string)" where
  "write_conll_samples samples dataset_name mode fs =
    (let fs1 = fs(conll_file_loc_mode dataset_name mode \<mapsto> write_conll samples []);
         fs2 = fs1(conll_file_loc_fulltext dataset_name \<mapsto> write_conll samples []);
         (r, f) = write_sents samples []
     in (r, fs2(conll_file_loc_sents dataset_name \<mapsto> f)))"

subsection \<open>Reading the label dictionary\<close>

text \<open>
  What a subscript on the label dictionary returns, without the insertion: the
  stored label, or \<open>O\<close> for a token id that has none.
\<close>

definition label_of :: "(string \<rightharpoonup> string) \<Rightarrow> string \<Rightarrow> string" where
  "label_of fe k = (case fe k of None \<Rightarrow> ''O'' | Some v \<Rightarrow> v)"

section \<open>Example documents\<close>

text \<open>
  A sentence of five tokens whose ids are neither consecutive nor start at 1,
  with a synthetic root edge, one frame, a single-token span and a span of
  three tokens; the rows the converter emits for it; the same document without
  the root edge; a frame in which two spans cover token 3; and the rows of a
  four-token sentence for the writer.
\<close>

definition ex_tokens :: xml where
  "ex_tokens = Element ''tokens'' Map.empty
    [Element ''token'' [''id'' \<mapsto> ''2'', ''surface'' \<mapsto> ''take'', ''lemma'' \<mapsto> ''take'', ''pos'' \<mapsto> ''VB''] [],
     Element ''token'' [''id'' \<mapsto> ''3'', ''surface'' \<mapsto> ''it'', ''lemma'' \<mapsto> ''it'', ''pos'' \<mapsto> ''PRP''] [],
     Element ''token'' [''id'' \<mapsto> ''5'', ''surface'' \<mapsto> ''to'', ''lemma'' \<mapsto> ''to'', ''pos'' \<mapsto> ''TO''] [],
     Element ''token'' [''id'' \<mapsto> ''6'', ''surface'' \<mapsto> ''the'', ''lemma'' \<mapsto> ''the'', ''pos'' \<mapsto> ''DT''] [],
     Element ''token'' [''id'' \<mapsto> ''7'', ''surface'' \<mapsto> ''kitchens'', ''lemma'' \<mapsto> ''kitchen'', ''pos'' \<mapsto> ''NNS''] []]"

definition ex_dependencies :: xml where
  "ex_dependencies = Element ''dependencies'' Map.empty
    [Element ''dep'' [''from'' \<mapsto> ''0'', ''to'' \<mapsto> ''2'', ''type'' \<mapsto> ''root''] [],
     Element ''dep'' [''from'' \<mapsto> ''2'', ''to'' \<mapsto> ''3'', ''type'' \<mapsto> ''dobj''] [],
     Element ''dep'' [''from'' \<mapsto> ''2'', ''to'' \<mapsto> ''5'', ''type'' \<mapsto> ''prep''] [],
     Element ''dep'' [''from'' \<mapsto> ''7'', ''to'' \<mapsto> ''6'', ''type'' \<mapsto> ''det''] [],
     Element ''dep'' [''from'' \<mapsto> ''5'', ''to'' \<mapsto> ''7'', ''type'' \<mapsto> ''pobj''] []]"

definition ex_frame :: xml where
  "ex_frame = Element ''frame'' [''name'' \<mapsto> ''Bringing'']
    [Element ''lexicalUnit'' Map.empty [Element ''token'' [''id'' \<mapsto> ''2''] []],
     Element ''frameElement'' [''type'' \<mapsto> ''Theme''] [Element ''token'' [''id'' \<mapsto> ''3''] []],
     Element ''frameElement'' [''type'' \<mapsto> ''Goal'']
       [Element ''token'' [''id'' \<mapsto> ''5''] [],
        Element ''token'' [''id'' \<mapsto> ''6''] [],
        Element ''token'' [''id'' \<mapsto> ''7''] []]]"

definition ex_doc :: xml where
  "ex_doc = Element ''command'' [''id'' \<mapsto> ''42'']
    [ex_tokens, ex_dependencies,
     Element ''semantics'' Map.empty [Element ''frameSemantics'' Map.empty [ex_frame]]]"

definition ex_rows :: "string list list" where
  "ex_rows =
    [[''2'', ''take'', ''take'', ''take'', ''VB'', ''VB'', ''42'', ''_'', ''0'', ''0'', ''root'', ''root'', ''take.v'', ''Bringing'', ''O''],
     [''3'', ''it'', ''it'', ''it'', ''PRP'', ''PRP'', ''42'', ''_'', ''2'', ''2'', ''dobj'', ''dobj'', ''_'', ''_'', ''S-Theme''],
     [''5'', ''to'', ''to'', ''to'', ''TO'', ''TO'', ''42'', ''_'', ''2'', ''2'', ''prep'', ''prep'', ''_'', ''_'', ''B-Goal''],
     [''6'', ''the'', ''the'', ''the'', ''DT'', ''DT'', ''42'', ''_'', ''7'', ''7'', ''det'', ''det'', ''_'', ''_'', ''I-Goal''],
     [''7'', ''kitchens'', ''kitchen'', ''kitchen'', ''NNS'', ''NNS'', ''42'', ''_'', ''5'', ''5'', ''pobj'', ''pobj'', ''_'', ''_'', ''I-Goal'']]"

definition ex_dependencies_no_root :: xml where
  "ex_dependencies_no_root = Element ''dependencies'' Map.empty
    [Element ''dep'' [''from'' \<mapsto> ''2'', ''to'' \<mapsto> ''3'', ''type'' \<mapsto> ''dobj''] [],
     Element ''dep'' [''from'' \<mapsto> ''2'', ''to'' \<mapsto> ''5'', ''type'' \<mapsto> ''prep''] [],
     Element ''dep'' [''from'' \<mapsto> ''7'', ''to'' \<mapsto> ''6'', ''type'' \<mapsto> ''det''] [],
     Element ''dep'' [''from'' \<mapsto> ''5'', ''to'' \<mapsto> ''7'', ''type'' \<mapsto> ''pobj''] []]"

definition ex_doc_no_root :: xml where
  "ex_doc_no_root = Element ''command'' [''id'' \<mapsto> ''42'']
    [ex_tokens, ex_dependencies_no_root,
     Element ''semantics'' Map.empty [Element ''frameSemantics'' Map.empty [ex_frame]]]"

definition ex_overlap_frame :: xml where
  "ex_overlap_frame = Element ''frame'' [''name'' \<mapsto> ''Bringing'']
    [Element ''lexicalUnit'' Map.empty [Element ''token'' [''id'' \<mapsto> ''2''] []],
     Element ''frameElement'' [''type'' \<mapsto> ''Theme''] [Element ''token'' [''id'' \<mapsto> ''3''] []],
     Element ''frameElement'' [''type'' \<mapsto> ''Goal'']
       [Element ''token'' [''id'' \<mapsto> ''3''] [],
        Element ''token'' [''id'' \<mapsto> ''5''] []]]"

definition ex_overlap_doc :: xml where
  "ex_overlap_doc = Element ''command'' [''id'' \<mapsto> ''42'']
    [ex_tokens, ex_dependencies,
     Element ''semantics'' Map.empty [Element ''frameSemantics'' Map.empty [ex_overlap_frame]]]"

definition ex_overlap_rows :: "string list list" where
  "ex_overlap_rows =
    [[''2'', ''take'', ''take'', ''take'', ''VB'', ''VB'', ''42'', ''_'', ''0'', ''0'', ''root'', ''root'', ''take.v'', ''Bringing'', ''O''],
     [''3'', ''it'', ''it'', ''it'', ''PRP'', ''PRP'', ''42'', ''_'', ''2'', ''2'', ''dobj'', ''dobj'', ''_'', ''_'', ''B-Goal''],
     [''5'', ''to'', ''to'', ''to'', ''TO'', ''TO'', ''42'', ''_'', ''2'', ''2'', ''prep'', ''prep'', ''_'', ''_'', ''I-Goal''],
     [''6'', ''the'', ''the'', ''the'', ''DT'', ''DT'', ''42'', ''_'', ''7'', ''7'', ''det'', ''det'', ''_'', ''_'', ''O''],
     [''7'', ''kitchens'', ''kitchen'', ''kitchen'', ''NNS'', ''NNS'', ''42'', ''_'', ''5'', ''5'', ''pobj'', ''pobj'', ''_'', ''_'', ''O'']]"

definition ex_four_rows :: "string list list" where
  "ex_four_rows =
    [[''1'', ''go'', ''go'', ''go'', ''VB'', ''VB'', ''7'', ''_'', ''0'', ''0'', ''root'', ''root'', ''go.v'', ''Motion'', ''O''],
     [''2'', ''to'', ''to'', ''to'', ''TO'', ''TO'', ''7'', ''_'', ''1'', ''1'', ''prep'', ''prep'', ''_'', ''_'', ''B-Goal''],
     [''3'', ''the'', ''the'', ''the'', ''DT'', ''DT'', ''7'', ''_'', ''4'', ''4'', ''det'', ''det'', ''_'', ''_'', ''I-Goal''],
     [''4'', ''kitchen'', ''kitchen'', ''kitchen'', ''NN'', ''NN'', ''7'', ''_'', ''2'', ''2'', ''pobj'', ''pobj'', ''_'', ''_'', ''I-Goal'']]"


section \<open>Properties\<close>

subsection \<open>Auxiliary facts\<close>

lemma bindE_Inr_iff: "bindE m f = Inr r \<longleftrightarrow> (\<exists>v. m = Inr v \<and> f v = Inr r)"
  by (cases m) (simp_all add: bindE_def)

lemma bindE_simps: "bindE (Inr v) f = f v" "bindE (Inl e) f = Inl e"
  by (simp_all add: bindE_def)

lemma getitem_Inr_iff: "getitem d k err = Inr v \<longleftrightarrow> d k = Some v"
  by (simp add: getitem_def split: option.splits)


lemma dd_getitem_fst: "fst (dd_getitem fe k) = label_of fe k"
  by (simp add: dd_getitem_def label_of_def split: option.splits)

lemma dd_getitem_snd: "label_of (snd (dd_getitem fe k)) = label_of fe"
  by (rule ext) (simp add: dd_getitem_def label_of_def split: option.splits)

lemma dep_field_Inr_iff:
  "dep_field deps t k = Inr v \<longleftrightarrow> (\<exists>i d. t ''id'' = Some i \<and> deps i = Some d \<and> d k = Some v)"
  by (simp add: dep_field_def bindE_Inr_iff getitem_Inr_iff)

lemma conll_row_Inr:
  assumes "conll_row command_id deps lus frame_name fe t = Inr (row, fe')"
  shows "\<exists>i s l p d fr ty c12.
      t ''id'' = Some i \<and> t ''surface'' = Some s \<and> t ''lemma'' = Some l \<and> t ''pos'' = Some p
    \<and> deps i = Some d \<and> d ''from'' = Some fr \<and> d ''type'' = Some ty
    \<and> (if i \<in> set lus
        then \<exists>c. get_fn_pos_by_rules p = Inr c \<and> c12 = get_lu_lemma l @ ''.'' @ c
        else c12 = ''_'')
    \<and> row = [i, s, l, l, p, p, command_id, ''_'', fr, fr, ty, ty, c12,
              if i \<in> set lus then get_fn_frame_name frame_name else ''_'', label_of fe i]
    \<and> label_of fe' = label_of fe"
proof -
  from assms obtain i where i: "t ''id'' = Some i"
    unfolding conll_row_def bindE_Inr_iff getitem_Inr_iff by blast
  from assms obtain s where s: "t ''surface'' = Some s"
    unfolding conll_row_def bindE_Inr_iff getitem_Inr_iff by blast
  from assms obtain l where l: "t ''lemma'' = Some l"
    unfolding conll_row_def bindE_Inr_iff getitem_Inr_iff by blast
  from assms obtain p where p: "t ''pos'' = Some p"
    unfolding conll_row_def bindE_Inr_iff getitem_Inr_iff by blast
  have ga: "getattr t ''id'' = Inr i" "getattr t ''surface'' = Inr s"
    "getattr t ''lemma'' = Inr l" "getattr t ''pos'' = Inr p"
    using i s l p by (simp_all add: getitem_def)
  note step = assms [unfolded conll_row_def ga bindE_simps]
  from step obtain fr where fr: "dep_field deps t ''from'' = Inr fr"
    unfolding bindE_Inr_iff by blast
  note step2 = step [unfolded fr bindE_simps]
  from step2 obtain ty where ty: "dep_field deps t ''type'' = Inr ty"
    unfolding bindE_Inr_iff by blast
  note step3 = step2 [unfolded ty bindE_simps]
  from fr ty i obtain d where d: "deps i = Some d" "d ''from'' = Some fr" "d ''type'' = Some ty"
    unfolding dep_field_Inr_iff by auto
  show ?thesis
  proof (cases "i \<in> set lus")
    case True
    with step3 obtain c where c: "get_fn_pos_by_rules p = Inr c"
      by (auto simp add: bindE_Inr_iff)
    from step3 True c have "row = [i, s, l, l, p, p, command_id, ''_'', fr, fr, ty, ty,
        get_lu_lemma l @ ''.'' @ c, get_fn_frame_name frame_name, fst (dd_getitem fe i)]"
      and "fe' = snd (dd_getitem fe i)"
      by (auto simp add: bindE_simps split: prod.splits)
    then show ?thesis using i s l p d True c
      by (simp add: dd_getitem_fst dd_getitem_snd)
  next
    case False
    from step3 False have "row = [i, s, l, l, p, p, command_id, ''_'', fr, fr, ty, ty,
        ''_'', ''_'', fst (dd_getitem fe i)]"
      and "fe' = snd (dd_getitem fe i)"
      by (auto simp add: bindE_simps split: prod.splits)
    then show ?thesis using i s l p d False
      by (simp add: dd_getitem_fst dd_getitem_snd)
  qed
qed


lemma rows_loop_Inr:
  "rows_loop command_id deps lus frame_name fe ts = Inr rows \<Longrightarrow>
   list_all2 (\<lambda>t row. \<exists>fe1 fe2. label_of fe1 = label_of fe
        \<and> conll_row command_id deps lus frame_name fe1 t = Inr (row, fe2)) ts rows"
proof (induction ts arbitrary: fe rows)
  case Nil
  then show ?case by simp
next
  case (Cons t ts)
  from Cons.prems obtain row fe' rest where
    r: "conll_row command_id deps lus frame_name fe t = Inr (row, fe')"
    and rest: "rows_loop command_id deps lus frame_name fe' ts = Inr rest"
    and rows: "rows = row # rest"
    by (auto simp add: bindE_Inr_iff)
  from conll_row_Inr [OF r] have lab: "label_of fe' = label_of fe" by blast
  from Cons.IH [OF rest] lab
  have "list_all2 (\<lambda>t row. \<exists>fe1 fe2. label_of fe1 = label_of fe
        \<and> conll_row command_id deps lus frame_name fe1 t = Inr (row, fe2)) ts rest"
    by simp
  with r rows show ?case by auto
qed

lemma rows_loop_row:
  assumes "rows_loop command_id deps lus frame_name fe ts = Inr rows"
  shows "length rows = length ts"
    and "j < length ts \<Longrightarrow> \<exists>i s l p d fr ty c12.
      (ts ! j) ''id'' = Some i \<and> (ts ! j) ''surface'' = Some s \<and> (ts ! j) ''lemma'' = Some l
    \<and> (ts ! j) ''pos'' = Some p
    \<and> deps i = Some d \<and> d ''from'' = Some fr \<and> d ''type'' = Some ty
    \<and> (if i \<in> set lus
        then \<exists>c. get_fn_pos_by_rules p = Inr c \<and> c12 = get_lu_lemma l @ ''.'' @ c
        else c12 = ''_'')
    \<and> rows ! j = [i, s, l, l, p, p, command_id, ''_'', fr, fr, ty, ty, c12,
              if i \<in> set lus then get_fn_frame_name frame_name else ''_'', label_of fe i]"
proof -
  note la = rows_loop_Inr [OF assms]
  show "length rows = length ts" using la by (simp add: list_all2_lengthD)
  assume j: "j < length ts"
  from list_all2_nthD [OF la j] obtain fe1 fe2 where
    lab: "label_of fe1 = label_of fe"
    and r: "conll_row command_id deps lus frame_name fe1 (ts ! j) = Inr (rows ! j, fe2)"
    by blast
  from conll_row_Inr [OF r, unfolded lab] show "\<exists>i s l p d fr ty c12.
      (ts ! j) ''id'' = Some i \<and> (ts ! j) ''surface'' = Some s \<and> (ts ! j) ''lemma'' = Some l
    \<and> (ts ! j) ''pos'' = Some p
    \<and> deps i = Some d \<and> d ''from'' = Some fr \<and> d ''type'' = Some ty
    \<and> (if i \<in> set lus
        then \<exists>c. get_fn_pos_by_rules p = Inr c \<and> c12 = get_lu_lemma l @ ''.'' @ c
        else c12 = ''_'')
    \<and> rows ! j = [i, s, l, l, p, p, command_id, ''_'', fr, fr, ty, ty, c12,
              if i \<in> set lus then get_fn_frame_name frame_name else ''_'', label_of fe i]"
    by blast
qed

lemma frame_to_conll_Inr:
  assumes "frame_to_conll command_id tokens deps frame = Inr rows"
  obtains frame_name lus fe where
    "attrib frame ''name'' = Some frame_name"
    "lus_of (findall [''lexicalUnit'', ''token''] frame) = Inr lus"
    "fe_loop (findall [''frameElement''] frame) Map.empty = Inr fe"
    "rows_loop command_id deps lus frame_name fe tokens = Inr rows"
  using assms unfolding frame_to_conll_def bindE_Inr_iff getitem_Inr_iff by blast

lemma span_loop_other:
  "span_loop fe_name n count toks fe = Inr fe' \<Longrightarrow>
   \<forall>tok \<in> set toks. attrib tok ''id'' \<noteq> Some i \<Longrightarrow> fe' i = fe i"
proof (induction toks arbitrary: count fe)
  case Nil
  then show ?case by simp
next
  case (Cons tok toks)
  from Cons.prems(1) obtain k where k: "attrib tok ''id'' = Some k"
    and rest: "span_loop fe_name n (Suc count) toks (fe(k \<mapsto> iob_label n count fe_name)) = Inr fe'"
    by (auto simp add: bindE_Inr_iff getitem_Inr_iff)
  from Cons.prems(2) k have "k \<noteq> i" by auto
  moreover from Cons.prems(2) have "\<forall>tok \<in> set toks. attrib tok ''id'' \<noteq> Some i" by simp
  ultimately show ?case using Cons.IH [OF rest] by simp
qed

lemma span_loop_last:
  "span_loop fe_name n count toks fe = Inr fe' \<Longrightarrow> k < length toks \<Longrightarrow>
   attrib (toks ! k) ''id'' = Some i \<Longrightarrow>
   \<forall>k'. k < k' \<and> k' < length toks \<longrightarrow> attrib (toks ! k') ''id'' \<noteq> Some i \<Longrightarrow>
   fe' i = Some (iob_label n (count + k) fe_name)"
proof (induction toks arbitrary: count fe k)
  case Nil
  then show ?case by simp
next
  case (Cons tok toks)
  from Cons.prems(1) obtain i0 where i0: "attrib tok ''id'' = Some i0"
    and rest: "span_loop fe_name n (Suc count) toks (fe(i0 \<mapsto> iob_label n count fe_name)) = Inr fe'"
    by (auto simp add: bindE_Inr_iff getitem_Inr_iff)
  show ?case
  proof (cases k)
    case 0
    with Cons.prems(3) i0 have eq: "i0 = i" by simp
    have "\<forall>t \<in> set toks. attrib t ''id'' \<noteq> Some i"
    proof
      fix t assume "t \<in> set toks"
      then obtain m where m: "m < length toks" "toks ! m = t" by (auto simp add: in_set_conv_nth)
      with Cons.prems(4) [rule_format, of "Suc m"] 0 show "attrib t ''id'' \<noteq> Some i" by simp
    qed
    from span_loop_other [OF rest this] eq 0 show ?thesis by simp
  next
    case (Suc k0)
    with Cons.prems have k0: "k0 < length toks" "attrib (toks ! k0) ''id'' = Some i" by simp_all
    have later: "\<forall>k'. k0 < k' \<and> k' < length toks \<longrightarrow> attrib (toks ! k') ''id'' \<noteq> Some i"
    proof (intro allI impI)
      fix k' assume "k0 < k' \<and> k' < length toks"
      with Cons.prems(4) [rule_format, of "Suc k'"] Suc show "attrib (toks ! k') ''id'' \<noteq> Some i"
        by simp
    qed
    from Cons.IH [OF rest k0 later] Suc show ?thesis by simp
  qed
qed

lemma fe_loop_other:
  "fe_loop fes fe = Inr fe' \<Longrightarrow>
   \<forall>el \<in> set fes. \<forall>tok \<in> set (findall [''token''] el). attrib tok ''id'' \<noteq> Some i \<Longrightarrow>
   fe' i = fe i"
proof (induction fes arbitrary: fe)
  case Nil
  then show ?case by simp
next
  case (Cons el fes)
  from Cons.prems(1) obtain ty fe1 where
    sp: "span_loop (get_fe_framenet ty) (length (findall [''token''] el)) 0
           (findall [''token''] el) fe = Inr fe1"
    and rest: "fe_loop fes fe1 = Inr fe'"
    by (auto simp add: bindE_Inr_iff getitem_Inr_iff Let_def)
  from Cons.prems(2) have "fe1 i = fe i" using span_loop_other [OF sp] by simp
  moreover from Cons.prems(2) have "fe' i = fe1 i" using Cons.IH [OF rest] by simp
  ultimately show ?case by simp
qed

lemma fe_loop_last:
  "fe_loop fes fe = Inr fe' \<Longrightarrow> a < length fes \<Longrightarrow>
   attrib (fes ! a) ''type'' = Some ty \<Longrightarrow>
   k < length (findall [''token''] (fes ! a)) \<Longrightarrow>
   attrib (findall [''token''] (fes ! a) ! k) ''id'' = Some i \<Longrightarrow>
   \<forall>k'. k < k' \<and> k' < length (findall [''token''] (fes ! a))
      \<longrightarrow> attrib (findall [''token''] (fes ! a) ! k') ''id'' \<noteq> Some i \<Longrightarrow>
   \<forall>a'. a < a' \<and> a' < length fes
      \<longrightarrow> (\<forall>tok \<in> set (findall [''token''] (fes ! a')). attrib tok ''id'' \<noteq> Some i) \<Longrightarrow>
   fe' i = Some (iob_label (length (findall [''token''] (fes ! a))) k (get_fe_framenet ty))"
proof (induction fes arbitrary: fe a)
  case Nil
  then show ?case by simp
next
  case (Cons el fes)
  from Cons.prems(1) obtain ty0 fe1 where ty0: "attrib el ''type'' = Some ty0" and
    sp: "span_loop (get_fe_framenet ty0) (length (findall [''token''] el)) 0
           (findall [''token''] el) fe = Inr fe1"
    and rest: "fe_loop fes fe1 = Inr fe'"
    by (auto simp add: bindE_Inr_iff getitem_Inr_iff Let_def)
  show ?case
  proof (cases a)
    case 0
    with Cons.prems(3) ty0 have ty: "ty0 = ty" by simp
    have "\<forall>e \<in> set fes. \<forall>tok \<in> set (findall [''token''] e). attrib tok ''id'' \<noteq> Some i"
    proof
      fix e assume "e \<in> set fes"
      then obtain m where m: "m < length fes" "fes ! m = e" by (auto simp add: in_set_conv_nth)
      with Cons.prems(7) [rule_format, of "Suc m"] 0
      show "\<forall>tok \<in> set (findall [''token''] e). attrib tok ''id'' \<noteq> Some i" by simp
    qed
    from fe_loop_other [OF rest this] have "fe' i = fe1 i" .
    moreover from Cons.prems(4,5,6) 0
    have "fe1 i = Some (iob_label (length (findall [''token''] el)) (0 + k) (get_fe_framenet ty0))"
      by (intro span_loop_last [OF sp]) simp_all
    ultimately show ?thesis using 0 ty by simp
  next
    case (Suc a0)
    have later: "\<forall>a'. a0 < a' \<and> a' < length fes
      \<longrightarrow> (\<forall>tok \<in> set (findall [''token''] (fes ! a')). attrib tok ''id'' \<noteq> Some i)"
    proof (intro allI impI)
      fix a' assume "a0 < a' \<and> a' < length fes"
      with Cons.prems(7) [rule_format, of "Suc a'"] Suc
      show "\<forall>tok \<in> set (findall [''token''] (fes ! a')). attrib tok ''id'' \<noteq> Some i" by simp
    qed
    from Cons.prems(2-6) Suc later show ?thesis
      using Cons.IH [OF rest, of a0] by simp
  qed
qed

lemma frames_loop_Inr:
  "frames_loop command_id tokens deps frames results = Inr out \<Longrightarrow>
     length out = length results + length frames
   \<and> take (length results) out = results
   \<and> (\<forall>f < length frames.
        frame_to_conll command_id tokens deps (frames ! f) = Inr (out ! (length results + f)))"
proof (induction frames arbitrary: results)
  case Nil
  then show ?case by simp
next
  case (Cons frame frames)
  from Cons.prems obtain rows where
    fr: "frame_to_conll command_id tokens deps frame = Inr rows"
    and rest: "frames_loop command_id tokens deps frames (results @ [rows]) = Inr out"
    by (auto simp add: bindE_Inr_iff)
  from Cons.IH [OF rest] have len: "length out = Suc (length results) + length frames"
    and tk: "take (Suc (length results)) out = results @ [rows]"
    and nth: "\<And>f. f < length frames \<Longrightarrow>
        frame_to_conll command_id tokens deps (frames ! f) = Inr (out ! (Suc (length results) + f))"
    by simp_all
  from tk have "take (length results) (take (Suc (length results)) out) = results" by simp
  then have tk': "take (length results) out = results" by (simp add: min_def)
  from tk have "take (Suc (length results)) out ! length results = rows" by simp
  then have here: "out ! length results = rows" by simp
  have "\<forall>f < length (frame # frames).
        frame_to_conll command_id tokens deps ((frame # frames) ! f)
          = Inr (out ! (length results + f))"
  proof (intro allI impI)
    fix f assume f: "f < length (frame # frames)"
    show "frame_to_conll command_id tokens deps ((frame # frames) ! f)
          = Inr (out ! (length results + f))"
    proof (cases f)
      case 0
      then show ?thesis using fr here by simp
    next
      case (Suc f0)
      then show ?thesis using nth [of f0] f by simp
    qed
  qed
  with len tk' show ?case by simp
qed

lemma doc_to_conll_Inr:
  assumes "doc_to_conll root results = Inr out"
  obtains command_id deps where
    "attrib root ''id'' = Some command_id"
    "doc_deps root = Inr deps"
    "length out = length results + length (doc_frames root)"
    "take (length results) out = results"
    "\<And>f. f < length (doc_frames root) \<Longrightarrow>
        frame_to_conll command_id (doc_tokens root) deps (doc_frames root ! f)
          = Inr (out ! (length results + f))"
proof -
  from assms obtain command_id deps where c: "attrib root ''id'' = Some command_id"
    and d: "doc_deps root = Inr deps"
    and fl: "frames_loop command_id (doc_tokens root) deps (doc_frames root) results = Inr out"
    unfolding doc_to_conll_def Let_def bindE_Inr_iff getitem_Inr_iff by blast
  from frames_loop_Inr [OF fl] c d that show ?thesis by blast
qed

lemma doc_row:
  assumes "doc_to_conll root results = Inr out"
    and "f < length (doc_frames root)" and "j < length (doc_tokens root)"
  obtains command_id deps frame_name lus fe i s l p d fr ty c12 where
    "attrib root ''id'' = Some command_id"
    "doc_deps root = Inr deps"
    "attrib (doc_frames root ! f) ''name'' = Some frame_name"
    "lus_of (findall [''lexicalUnit'', ''token''] (doc_frames root ! f)) = Inr lus"
    "fe_loop (findall [''frameElement''] (doc_frames root ! f)) Map.empty = Inr fe"
    "(doc_tokens root ! j) ''id'' = Some i" "(doc_tokens root ! j) ''surface'' = Some s"
    "(doc_tokens root ! j) ''lemma'' = Some l" "(doc_tokens root ! j) ''pos'' = Some p"
    "deps i = Some d" "d ''from'' = Some fr" "d ''type'' = Some ty"
    "if i \<in> set lus
        then \<exists>c. get_fn_pos_by_rules p = Inr c \<and> c12 = get_lu_lemma l @ ''.'' @ c
        else c12 = ''_''"
    "out ! (length results + f) ! j = [i, s, l, l, p, p, command_id, ''_'', fr, fr, ty, ty, c12,
              if i \<in> set lus then get_fn_frame_name frame_name else ''_'', label_of fe i]"
proof -
  from doc_to_conll_Inr [OF assms(1)] assms(2) obtain command_id deps where
    c: "attrib root ''id'' = Some command_id" and d: "doc_deps root = Inr deps"
    and fr: "frame_to_conll command_id (doc_tokens root) deps (doc_frames root ! f)
          = Inr (out ! (length results + f))"
    by blast
  from frame_to_conll_Inr [OF fr] obtain frame_name lus fe where
    n: "attrib (doc_frames root ! f) ''name'' = Some frame_name"
    and lu: "lus_of (findall [''lexicalUnit'', ''token''] (doc_frames root ! f)) = Inr lus"
    and fe: "fe_loop (findall [''frameElement''] (doc_frames root ! f)) Map.empty = Inr fe"
    and rl: "rows_loop command_id deps lus frame_name fe (doc_tokens root)
        = Inr (out ! (length results + f))"
    by blast
  from rows_loop_row(2) [OF rl assms(3)] c d n lu fe that show ?thesis by blast
qed

lemma lus_of_set:
  "lus_of xs = Inr lus \<Longrightarrow> i \<in> set lus \<longleftrightarrow> (\<exists>x \<in> set xs. attrib x ''id'' = Some i)"
proof (induction xs arbitrary: lus)
  case Nil
  then show ?case by simp
next
  case (Cons x xs)
  from Cons.prems obtain i0 rest where "attrib x ''id'' = Some i0" "lus_of xs = Inr rest"
    "lus = i0 # rest"
    by (auto simp add: bindE_Inr_iff getitem_Inr_iff)
  with Cons.IH [of rest] show ?case by auto
qed



lemma drop_forall_nth:
  "\<forall>x \<in> set (drop (Suc k) xs). P x \<Longrightarrow> \<forall>k'. k < k' \<and> k' < length xs \<longrightarrow> P (xs ! k')"
proof (intro allI impI)
  fix k' assume a: "\<forall>x \<in> set (drop (Suc k) xs). P x" and b: "k < k' \<and> k' < length xs"
  then have "drop (Suc k) xs ! (k' - Suc k) = xs ! k'" by simp
  moreover from b have "k' - Suc k < length (drop (Suc k) xs)" by auto
  ultimately have "xs ! k' \<in> set (drop (Suc k) xs)" by (metis nth_mem)
  with a show "P (xs ! k')" by blast
qed

subsection \<open>Facts about the writer\<close>

lemma write_seq_append: "write_seq seq f = f @ concat (map (\<lambda>s. str_join [CHR 0x09] s @ [CHR 0x0A]) seq)"
  by (induction seq arbitrary: f) simp_all

lemma write_conll_append:
  "write_conll samples f
    = f @ concat (map (\<lambda>seq. concat (map (\<lambda>s. str_join [CHR 0x09] s @ [CHR 0x0A]) seq)
                              @ [CHR 0x0A]) samples)"
  by (induction samples arbitrary: f) (simp_all add: write_seq_append)

lemma surfaces_Inr: "\<forall>w \<in> set seq. 2 \<le> length w \<Longrightarrow> surfaces seq = Inr (map (\<lambda>w. w ! 1) seq)"
  by (induction seq) (auto simp add: bindE_simps)

lemma write_sents_append:
  "\<forall>seq \<in> set samples. \<forall>w \<in> set seq. 2 \<le> length w \<Longrightarrow>
   write_sents samples f
    = (None, f @ concat (map (\<lambda>seq. str_join '' '' (map (\<lambda>w. w ! 1) seq) @ [CHR 0x0A]) samples))"
  by (induction samples arbitrary: f) (simp_all add: surfaces_Inr)

lemma sents_ne_mode: "conll_file_loc_sents d \<noteq> conll_file_loc_mode d m"
proof
  assume "conll_file_loc_sents d = conll_file_loc_mode d m"
  then have "last (conll_file_loc_sents d) = last (conll_file_loc_mode d m)" by simp
  then show False by (simp add: conll_file_loc_sents_def conll_file_loc_mode_def)
qed

lemma sents_ne_fulltext: "conll_file_loc_sents d \<noteq> conll_file_loc_fulltext d"
proof
  assume "conll_file_loc_sents d = conll_file_loc_fulltext d"
  then have "last (conll_file_loc_sents d) = last (conll_file_loc_fulltext d)" by simp
  then show False by (simp add: conll_file_loc_sents_def conll_file_loc_fulltext_def)
qed

lemma write_conll_samples_files:
  "snd (write_conll_samples samples d m fs) (conll_file_loc_mode d m) = Some (write_conll samples [])"
  "snd (write_conll_samples samples d m fs) (conll_file_loc_fulltext d) = Some (write_conll samples [])"
  "snd (write_conll_samples samples d m fs) (conll_file_loc_sents d) = Some (snd (write_sents samples []))"
  "fst (write_conll_samples samples d m fs) = fst (write_sents samples [])"
  using sents_ne_mode [of d m] sents_ne_fulltext [of d]
  by (auto simp add: write_conll_samples_def Let_def split: prod.splits)

lemma count_join_tab:
  "\<forall>x \<in> set s. CHR 0x0A \<notin> set x \<Longrightarrow> count_list (str_join [CHR 0x09] s) (CHR 0x0A) = 0"
  by (induction "[CHR 0x09]" s rule: str_join.induct) simp_all

lemma count_join_space:
  "\<forall>x \<in> set s. CHR 0x0A \<notin> set x \<Longrightarrow> count_list (str_join '' '' s) (CHR 0x0A) = 0"
  by (induction "'' ''" s rule: str_join.induct) simp_all

lemma count_list_concat: "count_list (concat xss) c = sum_list (map (\<lambda>xs. count_list xs c) xss)"
  by (induction xss) simp_all

lemma count_rows:
  "\<forall>s \<in> set seq. \<forall>x \<in> set s. CHR 0x0A \<notin> set x \<Longrightarrow>
   count_list (concat (map (\<lambda>s. str_join [CHR 0x09] s @ [CHR 0x0A]) seq)) (CHR 0x0A) = length seq"
  by (induction seq) (simp_all add: count_join_tab)

lemma count_file:
  "\<forall>seq \<in> set samples. \<forall>s \<in> set seq. \<forall>x \<in> set s. CHR 0x0A \<notin> set x \<Longrightarrow>
   count_list (write_conll samples []) (CHR 0x0A) = sum_list (map (\<lambda>seq. length seq + 1) samples)"
  unfolding write_conll_append
  by (induction samples) (simp_all add: count_rows)

subsection \<open>Evaluating the examples\<close>

lemmas eval_simps = findall_def find_children_def bindE_def getitem_def doc_to_conll_def
  doc_tokens_def doc_frames_def doc_deps_def frame_to_conll_def conll_row_def dep_field_def
  dd_getitem_def iob_label_def get_fe_framenet_def fe_framenet_mapping_def
  get_fn_frame_name_def fn_frame_name_mapping_def get_lu_lemma_def lu_lemma_mapping_def
  get_fn_pos_by_rules_def Let_def

lemmas ex_defs = ex_doc_def ex_tokens_def ex_dependencies_def ex_frame_def
  ex_doc_no_root_def ex_dependencies_no_root_def ex_overlap_doc_def ex_overlap_frame_def

lemma ex_doc_conll: "doc_to_conll ex_doc [] = Inr [ex_rows]"
  by (simp add: eval_simps ex_defs ex_rows_def)

subsection \<open>The part-of-speech rule\<close>

text \<open>
  C1 (as stated): every tag outside nine recognised values raises. The rule
  accepts twelve distinct tags, so no set of nine tags contains every tag that
  does not raise.
\<close>

theorem nine_recognized_values_counterexample:
  "\<not> (\<exists>S. finite S \<and> card S = 9
        \<and> (\<forall>p. p \<notin> S \<longrightarrow> (\<exists>e. get_fn_pos_by_rules p = Inl e)))"
proof
  assume "\<exists>S. finite S \<and> card S = 9
        \<and> (\<forall>p. p \<notin> S \<longrightarrow> (\<exists>e. get_fn_pos_by_rules p = Inl e))"
  then obtain S where fin: "finite S" and c: "card S = 9"
    and out: "\<And>p. p \<notin> S \<Longrightarrow> \<exists>e. get_fn_pos_by_rules p = Inl e" by blast
  let ?ts = "[''JJ'', ''NN'', ''NNP'', ''NNS'', ''VB'', ''VBD'', ''VBG'', ''VBN'', ''VBP'',
              ''VBZ'', ''RP'', ''EX'']"
  have ok: "\<forall>t \<in> set ?ts. \<exists>c. get_fn_pos_by_rules t = Inr c"
    by (simp add: get_fn_pos_by_rules_def)
  have "set ?ts \<subseteq> S"
  proof
    fix t assume t: "t \<in> set ?ts"
    show "t \<in> S"
    proof (rule ccontr)
      assume "t \<notin> S"
      then obtain e where "get_fn_pos_by_rules t = Inl e" using out by blast
      moreover obtain c where "get_fn_pos_by_rules t = Inr c" using ok t by blast
      ultimately show False by simp
    qed
  qed
  then have "card (set ?ts) \<le> card S" using fin by (rule card_mono [rotated])
  moreover have "distinct ?ts" by simp
  then have "card (set ?ts) = length ?ts" by (rule distinct_card)
  ultimately show False using c by simp
qed

text \<open>
  C1 (amended): \<open>JJ\<close> maps to \<open>a\<close>, the three noun tags to \<open>n\<close>, the
  eight verb-like tags (six verb forms, the particle \<open>RP\<close> and the existential
  \<open>EX\<close>) to \<open>v\<close>, and every tag outside these twelve raises the exception
  whose arguments are the message and the offending tag.
\<close>

theorem get_fn_pos_by_rules_cases:
  "get_fn_pos_by_rules ''JJ'' = Inr ''a''
   \<and> (n \<in> {''NN'', ''NNP'', ''NNS''} \<longrightarrow> get_fn_pos_by_rules n = Inr ''n'')
   \<and> (v \<in> {''VB'', ''VBD'', ''VBG'', ''VBN'', ''VBP'', ''VBZ'', ''RP'', ''EX''}
        \<longrightarrow> get_fn_pos_by_rules v = Inr ''v'')
   \<and> (p \<notin> {''JJ'', ''NN'', ''NNP'', ''NNS'', ''VB'', ''VBD'', ''VBG'', ''VBN'', ''VBP'',
              ''VBZ'', ''RP'', ''EX''}
        \<longrightarrow> get_fn_pos_by_rules p
            = Inl (Exception ''Rule not defined for part-of-speech word'' p))"
  by (auto simp add: get_fn_pos_by_rules_def)

theorem get_fn_pos_by_rules_cases_witness:
  "''NNP'' \<in> {''NN'', ''NNP'', ''NNS''} \<and> get_fn_pos_by_rules ''NNP'' = Inr ''n''
   \<and> ''VBZ'' \<in> {''VB'', ''VBD'', ''VBG'', ''VBN'', ''VBP'', ''VBZ'', ''RP'', ''EX''}
   \<and> get_fn_pos_by_rules ''VBZ'' = Inr ''v''
   \<and> ''FOO'' \<notin> {''JJ'', ''NN'', ''NNP'', ''NNS'', ''VB'', ''VBD'', ''VBG'', ''VBN'', ''VBP'',
              ''VBZ'', ''RP'', ''EX''}
   \<and> get_fn_pos_by_rules ''FOO''
            = Inl (Exception ''Rule not defined for part-of-speech word'' ''FOO'')"
  using get_fn_pos_by_rules_cases [of "''NNP''" "''VBZ''" "''FOO''"] by simp

subsection \<open>The name tables\<close>

text \<open>
  C6: each of the three remapping functions returns a name that is not a key
  of its table unchanged, and applying a function twice gives what applying
  it once gives.
\<close>

theorem remapping_lookup_with_default:
  "(huric_name \<notin> fst ` set fn_frame_name_mapping
      \<longrightarrow> get_fn_frame_name huric_name = huric_name)
   \<and> (lemma_name \<notin> fst ` set lu_lemma_mapping \<longrightarrow> get_lu_lemma lemma_name = lemma_name)
   \<and> (fe \<notin> fst ` set fe_framenet_mapping \<longrightarrow> get_fe_framenet fe = fe)
   \<and> get_fn_frame_name (get_fn_frame_name huric_name) = get_fn_frame_name huric_name
   \<and> get_lu_lemma (get_lu_lemma lemma_name) = get_lu_lemma lemma_name
   \<and> get_fe_framenet (get_fe_framenet fe) = get_fe_framenet fe"
proof -
  have "huric_name \<notin> fst ` set fn_frame_name_mapping
      \<longrightarrow> get_fn_frame_name huric_name = huric_name"
    by (simp add: get_fn_frame_name_def map_of_eq_None_iff [THEN iffD2])
  moreover have "lemma_name \<notin> fst ` set lu_lemma_mapping
      \<longrightarrow> get_lu_lemma lemma_name = lemma_name"
    by (simp add: get_lu_lemma_def map_of_eq_None_iff [THEN iffD2])
  moreover have "fe \<notin> fst ` set fe_framenet_mapping \<longrightarrow> get_fe_framenet fe = fe"
    by (simp add: get_fe_framenet_def map_of_eq_None_iff [THEN iffD2])
  moreover have "get_fn_frame_name (get_fn_frame_name huric_name) = get_fn_frame_name huric_name"
    by (simp add: get_fn_frame_name_def fn_frame_name_mapping_def)
  moreover have "get_lu_lemma (get_lu_lemma lemma_name) = get_lu_lemma lemma_name"
    by (simp add: get_lu_lemma_def lu_lemma_mapping_def)
  moreover have "get_fe_framenet (get_fe_framenet fe) = get_fe_framenet fe"
    by (simp add: get_fe_framenet_def fe_framenet_mapping_def)
  ultimately show ?thesis by blast
qed

theorem remapping_lookup_with_default_witness:
  "''Giving'' \<notin> fst ` set fn_frame_name_mapping \<and> get_fn_frame_name ''Giving'' = ''Giving''
   \<and> ''take'' \<notin> fst ` set lu_lemma_mapping \<and> get_lu_lemma ''take'' = ''take''
   \<and> ''Theme'' \<notin> fst ` set fe_framenet_mapping \<and> get_fe_framenet ''Theme'' = ''Theme''
   \<and> get_fn_frame_name ''Entering'' = ''Arriving''
   \<and> get_fn_frame_name (get_fn_frame_name ''Entering'') = get_fn_frame_name ''Entering''"
proof -
  have a: "''Giving'' \<notin> fst ` set fn_frame_name_mapping"
    by (simp add: fn_frame_name_mapping_def)
  have b: "''take'' \<notin> fst ` set lu_lemma_mapping"
    by (simp add: lu_lemma_mapping_def)
  have c: "''Theme'' \<notin> fst ` set fe_framenet_mapping"
    by (simp add: fe_framenet_mapping_def)
  have d: "get_fn_frame_name ''Entering'' = ''Arriving''"
    by (simp add: get_fn_frame_name_def fn_frame_name_mapping_def)
  show ?thesis
    using a b c d remapping_lookup_with_default [of "''Giving''" "''take''" "''Theme''"]
      remapping_lookup_with_default [of "''Entering''" "''take''" "''Theme''"]
    by simp
qed

subsection \<open>Dependency fields\<close>



subsection \<open>Frame-element labels\<close>

text \<open>
  C3 (as stated): the single token of every span of length 1 is labelled
  \<open>S-<role>\<close>. In the frame below the span \<open>Theme\<close> has the single
  token 3, a later span \<open>Goal\<close> starts with token 3 as well, and the row of
  token 3 carries \<open>B-Goal\<close>: the later assignment replaces the earlier one.
\<close>

theorem overlapping_spans_counterexample:
  "length (findall [''token''] (findall [''frameElement''] (doc_frames ex_overlap_doc ! 0) ! 0)) = 1
   \<and> attrib (findall [''token''] (findall [''frameElement''] (doc_frames ex_overlap_doc ! 0) ! 0) ! 0)
        ''id'' = Some ''3''
   \<and> attrib (findall [''frameElement''] (doc_frames ex_overlap_doc ! 0) ! 0) ''type'' = Some ''Theme''
   \<and> (doc_tokens ex_overlap_doc ! 1) ''id'' = Some ''3''
   \<and> doc_to_conll ex_overlap_doc [] = Inr [ex_overlap_rows]
   \<and> ex_overlap_rows ! 1 ! 14 = ''B-Goal''
   \<and> ex_overlap_rows ! 1 ! 14 \<noteq> ''S-'' @ get_fe_framenet ''Theme''"
  by (simp add: eval_simps ex_defs ex_overlap_rows_def)

text \<open>
  C3 (amended): take an entry of a frame-element span, token number \<open>k\<close>
  of span number \<open>a\<close>, whose token id occurs in no later entry of the same
  span and in no later span of the frame. The row of the sentence token with
  that id carries in the last column the prefix \<open>S\<close> when the span has one
  token, else \<open>B\<close> for the first token and \<open>I\<close> for any other one,
  followed by \<open>-\<close> and the remapped frame-element name, the same for all
  tokens of the span.
\<close>

theorem span_labels_last_write:
  assumes "doc_to_conll root results = Inr out"
    and "f < length (doc_frames root)"
    and "fes = findall [''frameElement''] (doc_frames root ! f)"
    and "a < length fes"
    and "toks = findall [''token''] (fes ! a)"
    and "k < length toks"
    and "attrib (fes ! a) ''type'' = Some ty"
    and "attrib (toks ! k) ''id'' = Some i"
    and "\<forall>tok \<in> set (drop (Suc k) toks). attrib tok ''id'' \<noteq> Some i"
    and "\<forall>el \<in> set (drop (Suc a) fes). \<forall>tok \<in> set (findall [''token''] el).
           attrib tok ''id'' \<noteq> Some i"
    and "j < length (doc_tokens root)"
    and "(doc_tokens root ! j) ''id'' = Some i"
  shows "out ! (length results + f) ! j ! 14 =
     (if length toks = 1 then ''S'' else if k = 0 then ''B'' else ''I'')
       @ ''-'' @ get_fe_framenet ty"
proof -
  from doc_row [OF assms(1,2,11)] obtain command_id frame_name lus fe i' s l p fr ty' c12 where
    fe: "fe_loop (findall [''frameElement''] (doc_frames root ! f)) Map.empty = Inr fe"
    and i': "(doc_tokens root ! j) ''id'' = Some i'"
    and row: "out ! (length results + f) ! j
        = [i', s, l, l, p, p, command_id, ''_'', fr, fr, ty', ty', c12,
              if i' \<in> set lus then get_fn_frame_name frame_name else ''_'', label_of fe i']"
    by metis
  from i' assms(12) have eq: "i' = i" by simp
  note later_same = drop_forall_nth [OF assms(9)]
  note later_spans = drop_forall_nth [OF assms(10)]
  have "fe i = Some (iob_label (length (findall [''token''] (fes ! a))) k (get_fe_framenet ty))"
    using fe assms(4,6,7,8) later_same later_spans unfolding assms(3,5)
    by (intro fe_loop_last) simp_all
  then have "label_of fe i = iob_label (length toks) k (get_fe_framenet ty)"
    by (simp add: label_of_def assms(5))
  with row eq show ?thesis by (simp add: iob_label_def)
qed

theorem span_labels_last_write_witness:
  "doc_to_conll ex_doc [] = Inr [ex_rows]
   \<and> [ex_rows] ! 0 ! 1 ! 14 = ''S-Theme''
   \<and> [ex_rows] ! 0 ! 2 ! 14 = ''B-Goal''
   \<and> [ex_rows] ! 0 ! 3 ! 14 = ''I-Goal''
   \<and> [ex_rows] ! 0 ! 4 ! 14 = ''I-Goal''"
proof -
  note ev = ex_doc_conll
  have s: "[ex_rows] ! 0 ! 1 ! 14 = ''S-Theme''"
    using span_labels_last_write [where f = 0 and a = 0 and k = 0 and j = 1
        and ty = "''Theme''" and i = "''3''", OF ev _ refl _ refl]
    by (simp add: doc_frames_def doc_tokens_def findall_def find_children_def ex_defs
        get_fe_framenet_def fe_framenet_mapping_def)
  have b: "[ex_rows] ! 0 ! 2 ! 14 = ''B-Goal''"
    using span_labels_last_write [where f = 0 and a = 1 and k = 0 and j = 2
        and ty = "''Goal''" and i = "''5''", OF ev _ refl _ refl]
    by (simp add: doc_frames_def doc_tokens_def findall_def find_children_def ex_defs
        get_fe_framenet_def fe_framenet_mapping_def)
  have i1: "[ex_rows] ! 0 ! 3 ! 14 = ''I-Goal''"
    using span_labels_last_write [where f = 0 and a = 1 and k = 1 and j = 3
        and ty = "''Goal''" and i = "''6''", OF ev _ refl _ refl]
    by (simp add: doc_frames_def doc_tokens_def findall_def find_children_def ex_defs
        get_fe_framenet_def fe_framenet_mapping_def)
  have i2: "[ex_rows] ! 0 ! 4 ! 14 = ''I-Goal''"
    using span_labels_last_write [where f = 0 and a = 1 and k = 2 and j = 4
        and ty = "''Goal''" and i = "''7''", OF ev _ refl _ refl]
    by (simp add: doc_frames_def doc_tokens_def findall_def find_children_def ex_defs
        get_fe_framenet_def fe_framenet_mapping_def)
  from ev s b i1 i2 show ?thesis by blast
qed

text \<open>
  C4: the row of a token whose id is the id of no token of any frame-element
  span of the current frame has \<open>O\<close> in the last column.
\<close>

theorem uncovered_token_label_O:
  assumes "doc_to_conll root results = Inr out"
    and "f < length (doc_frames root)"
    and "j < length (doc_tokens root)"
    and "(doc_tokens root ! j) ''id'' = Some i"
    and "\<forall>el \<in> set (findall [''frameElement''] (doc_frames root ! f)).
           \<forall>tok \<in> set (findall [''token''] el). attrib tok ''id'' \<noteq> Some i"
  shows "out ! (length results + f) ! j ! 14 = ''O''"
proof -
  from doc_row [OF assms(1,2,3)] obtain command_id frame_name lus fe i' s l p fr ty' c12 where
    fe: "fe_loop (findall [''frameElement''] (doc_frames root ! f)) Map.empty = Inr fe"
    and i': "(doc_tokens root ! j) ''id'' = Some i'"
    and row: "out ! (length results + f) ! j
        = [i', s, l, l, p, p, command_id, ''_'', fr, fr, ty', ty', c12,
              if i' \<in> set lus then get_fn_frame_name frame_name else ''_'', label_of fe i']"
    by metis
  from i' assms(4) have eq: "i' = i" by simp
  from fe_loop_other [OF fe assms(5)] have "label_of fe i = ''O''" by (simp add: label_of_def)
  with row eq show ?thesis by simp
qed

theorem uncovered_token_label_O_witness:
  "doc_to_conll ex_doc [] = Inr [ex_rows] \<and> (doc_tokens ex_doc ! 0) ''id'' = Some ''2''
   \<and> [ex_rows] ! 0 ! 0 ! 14 = ''O''"
proof -
  note ev = ex_doc_conll
  have i: "(doc_tokens ex_doc ! 0) ''id'' = Some ''2''"
    by (simp add: doc_tokens_def findall_def find_children_def ex_defs)
  have f: "0 < length (doc_frames ex_doc)"
    by (simp add: doc_frames_def findall_def find_children_def ex_defs)
  have j: "0 < length (doc_tokens ex_doc)"
    by (simp add: doc_tokens_def findall_def find_children_def ex_defs)
  have u: "\<forall>el \<in> set (findall [''frameElement''] (doc_frames ex_doc ! 0)).
           \<forall>tok \<in> set (findall [''token''] el). attrib tok ''id'' \<noteq> Some ''2''"
    by (auto simp add: doc_frames_def findall_def find_children_def ex_defs)
  have "[ex_rows] ! 0 ! 0 ! 14 = ''O''"
    using uncovered_token_label_O [OF ev f j i u] by simp
  with ev i show ?thesis by blast
qed

subsection \<open>Lexical-unit fields\<close>

text \<open>
  C5: when the token's id is among the ids of the frame's lexical-unit tokens,
  FILLPRED is the remapped lemma, a dot and the part-of-speech category, and
  PRED is the remapped frame name; otherwise both fields are the placeholder
  \<open>_\<close>.
\<close>

theorem fillpred_pred_fields:
  assumes "doc_to_conll root results = Inr out"
    and "f < length (doc_frames root)"
    and "j < length (doc_tokens root)"
    and "(doc_tokens root ! j) ''id'' = Some i"
    and "(doc_tokens root ! j) ''lemma'' = Some l"
    and "(doc_tokens root ! j) ''pos'' = Some p"
    and "attrib (doc_frames root ! f) ''name'' = Some frame_name"
  shows "if (\<exists>lu \<in> set (findall [''lexicalUnit'', ''token''] (doc_frames root ! f)).
              attrib lu ''id'' = Some i)
     then (\<exists>c. get_fn_pos_by_rules p = Inr c
             \<and> out ! (length results + f) ! j ! 12 = get_lu_lemma l @ ''.'' @ c)
          \<and> out ! (length results + f) ! j ! 13 = get_fn_frame_name frame_name
     else out ! (length results + f) ! j ! 12 = ''_''
          \<and> out ! (length results + f) ! j ! 13 = ''_''"
proof -
  from doc_row [OF assms(1,2,3)] obtain command_id frame_name' lus fe i' s l' p' fr ty' c12 where
    n: "attrib (doc_frames root ! f) ''name'' = Some frame_name'"
    and lu: "lus_of (findall [''lexicalUnit'', ''token''] (doc_frames root ! f)) = Inr lus"
    and i': "(doc_tokens root ! j) ''id'' = Some i'"
    and l': "(doc_tokens root ! j) ''lemma'' = Some l'"
    and p': "(doc_tokens root ! j) ''pos'' = Some p'"
    and c12: "if i' \<in> set lus
        then \<exists>c. get_fn_pos_by_rules p' = Inr c \<and> c12 = get_lu_lemma l' @ ''.'' @ c
        else c12 = ''_''"
    and row: "out ! (length results + f) ! j
        = [i', s, l', l', p', p', command_id, ''_'', fr, fr, ty', ty', c12,
              if i' \<in> set lus then get_fn_frame_name frame_name' else ''_'', label_of fe i']"
    by metis
  from n i' l' p' assms(4-7) have eq: "frame_name' = frame_name" "i' = i" "l' = l" "p' = p"
    by simp_all
  note mem = lus_of_set [OF lu, of i]
  show ?thesis
  proof (cases "i \<in> set lus")
    case True
    with c12 row eq mem show ?thesis by auto
  next
    case False
    with c12 row eq mem show ?thesis by auto
  qed
qed

theorem fillpred_pred_fields_witness:
  "doc_to_conll ex_doc [] = Inr [ex_rows]
   \<and> [ex_rows] ! 0 ! 0 ! 12 = ''take.v'' \<and> [ex_rows] ! 0 ! 0 ! 13 = ''Bringing''
   \<and> [ex_rows] ! 0 ! 1 ! 12 = ''_'' \<and> [ex_rows] ! 0 ! 1 ! 13 = ''_''"
proof -
  note ev = ex_doc_conll
  have lu: "[ex_rows] ! 0 ! 0 ! 12 = ''take.v'' \<and> [ex_rows] ! 0 ! 0 ! 13 = ''Bringing''"
    using fillpred_pred_fields [where f = 0 and j = 0 and i = "''2''" and l = "''take''"
        and p = "''VB''" and frame_name = "''Bringing''", OF ev]
    by (simp add: doc_frames_def doc_tokens_def findall_def find_children_def ex_defs
        get_fn_pos_by_rules_def get_lu_lemma_def lu_lemma_mapping_def
        get_fn_frame_name_def fn_frame_name_mapping_def)
  have no: "[ex_rows] ! 0 ! 1 ! 12 = ''_'' \<and> [ex_rows] ! 0 ! 1 ! 13 = ''_''"
    using fillpred_pred_fields [where f = 0 and j = 1 and i = "''3''" and l = "''it''"
        and p = "''PRP''" and frame_name = "''Bringing''", OF ev]
    by (simp add: doc_frames_def doc_tokens_def findall_def find_children_def ex_defs)
  from ev lu no show ?thesis by blast
qed

subsection \<open>Rows and tokens\<close>

text \<open>
  C7: a converted document adds one row-set per frame, and every row-set has
  one row per token of the sentence, in the order of the tokens (the FORM
  column lists the tokens' surface forms in sentence order).
\<close>

theorem one_row_per_token:
  assumes "doc_to_conll root results = Inr out"
  shows "length out = length results + length (doc_frames root)
    \<and> (\<forall>f < length (doc_frames root).
          length (out ! (length results + f)) = length (doc_tokens root)
        \<and> map (\<lambda>row. Some (row ! 1)) (out ! (length results + f))
            = map (\<lambda>t. t ''surface'') (doc_tokens root))"
proof -
  from doc_to_conll_Inr [OF assms] obtain command_id deps where
    len: "length out = length results + length (doc_frames root)"
    and fr: "\<And>f. f < length (doc_frames root) \<Longrightarrow>
        frame_to_conll command_id (doc_tokens root) deps (doc_frames root ! f)
          = Inr (out ! (length results + f))"
    by blast
  have "\<forall>f < length (doc_frames root).
          length (out ! (length results + f)) = length (doc_tokens root)
        \<and> map (\<lambda>row. Some (row ! 1)) (out ! (length results + f))
            = map (\<lambda>t. t ''surface'') (doc_tokens root)"
  proof (intro allI impI)
    fix f assume f: "f < length (doc_frames root)"
    from frame_to_conll_Inr [OF fr [OF f]] obtain frame_name lus fe where
      rl: "rows_loop command_id deps lus frame_name fe (doc_tokens root)
        = Inr (out ! (length results + f))"
      by blast
    note l = rows_loop_row(1) [OF rl]
    have "map (\<lambda>row. Some (row ! 1)) (out ! (length results + f))
            = map (\<lambda>t. t ''surface'') (doc_tokens root)"
    proof (rule nth_equalityI)
      show "length (map (\<lambda>row. Some (row ! 1)) (out ! (length results + f)))
          = length (map (\<lambda>t. t ''surface'') (doc_tokens root))" using l by simp
    next
      fix j assume "j < length (map (\<lambda>row. Some (row ! 1)) (out ! (length results + f)))"
      then have j: "j < length (doc_tokens root)" using l by simp
      from rows_loop_row(2) [OF rl j] obtain s where
        "(doc_tokens root ! j) ''surface'' = Some s" "out ! (length results + f) ! j ! 1 = s"
        by auto
      then show "map (\<lambda>row. Some (row ! 1)) (out ! (length results + f)) ! j
          = map (\<lambda>t. t ''surface'') (doc_tokens root) ! j" using j l by simp
    qed
    with l show "length (out ! (length results + f)) = length (doc_tokens root)
        \<and> map (\<lambda>row. Some (row ! 1)) (out ! (length results + f))
            = map (\<lambda>t. t ''surface'') (doc_tokens root)" by simp
  qed
  with len show ?thesis by simp
qed

theorem one_row_per_token_witness:
  "doc_to_conll ex_doc [] = Inr [ex_rows] \<and> length (doc_frames ex_doc) = 1
   \<and> length (doc_tokens ex_doc) = 5 \<and> length [ex_rows] = 1 \<and> length ([ex_rows] ! 0) = 5
   \<and> map (\<lambda>row. Some (row ! 1)) ([ex_rows] ! 0)
       = [Some ''take'', Some ''it'', Some ''to'', Some ''the'', Some ''kitchens'']"
proof -
  note ev = ex_doc_conll
  have f: "length (doc_frames ex_doc) = 1"
    by (simp add: doc_frames_def findall_def find_children_def ex_defs)
  have t: "length (doc_tokens ex_doc) = 5"
    by (simp add: doc_tokens_def findall_def find_children_def ex_defs)
  have s: "map (\<lambda>t. t ''surface'') (doc_tokens ex_doc)
      = [Some ''take'', Some ''it'', Some ''to'', Some ''the'', Some ''kitchens'']"
    by (simp add: doc_tokens_def findall_def find_children_def ex_defs)
  from one_row_per_token [OF ev] f t s ev show ?thesis by simp
qed

text \<open>
  C10: the ID column of every row-set is the list of the tokens' \<open>id\<close>
  attributes as the document gives them; no index is recomputed.
\<close>

theorem id_field_verbatim:
  assumes "doc_to_conll root results = Inr out"
    and "f < length (doc_frames root)"
  shows "map (\<lambda>row. Some (row ! 0)) (out ! (length results + f))
            = map (\<lambda>t. t ''id'') (doc_tokens root)"
proof -
  from doc_to_conll_Inr [OF assms(1)] assms(2) obtain command_id deps where
    fr: "frame_to_conll command_id (doc_tokens root) deps (doc_frames root ! f)
          = Inr (out ! (length results + f))"
    by blast
  from frame_to_conll_Inr [OF fr] obtain frame_name lus fe where
    rl: "rows_loop command_id deps lus frame_name fe (doc_tokens root)
        = Inr (out ! (length results + f))"
    by blast
  note l = rows_loop_row(1) [OF rl]
  show ?thesis
  proof (rule nth_equalityI)
    show "length (map (\<lambda>row. Some (row ! 0)) (out ! (length results + f)))
        = length (map (\<lambda>t. t ''id'') (doc_tokens root))" using l by simp
  next
    fix j assume "j < length (map (\<lambda>row. Some (row ! 0)) (out ! (length results + f)))"
    then have j: "j < length (doc_tokens root)" using l by simp
    from rows_loop_row(2) [OF rl j] obtain i where
      "(doc_tokens root ! j) ''id'' = Some i" "out ! (length results + f) ! j ! 0 = i"
      by auto
    then show "map (\<lambda>row. Some (row ! 0)) (out ! (length results + f)) ! j
        = map (\<lambda>t. t ''id'') (doc_tokens root) ! j" using j l by simp
  qed
qed

theorem id_field_verbatim_witness:
  "doc_to_conll ex_doc [] = Inr [ex_rows]
   \<and> map (\<lambda>row. Some (row ! 0)) ([ex_rows] ! 0)
       = [Some ''2'', Some ''3'', Some ''5'', Some ''6'', Some ''7'']"
proof -
  note ev = ex_doc_conll
  have f: "0 < length (doc_frames ex_doc)"
    by (simp add: doc_frames_def findall_def find_children_def ex_defs)
  have s: "map (\<lambda>t. t ''id'') (doc_tokens ex_doc)
      = [Some ''2'', Some ''3'', Some ''5'', Some ''6'', Some ''7'']"
    by (simp add: doc_tokens_def findall_def find_children_def ex_defs)
  from id_field_verbatim [OF ev f] s ev show ?thesis by simp
qed

subsection \<open>The written files\<close>

text \<open>
  C8: after the call the mode-specific file and the \<open>fulltext.train\<close>
  file hold the same content, the serialised row-sets.
\<close>

theorem fulltext_file_duplicates_mode_file:
  "snd (write_conll_samples samples dataset_name mode fs) (conll_file_loc_mode dataset_name mode)
     = snd (write_conll_samples samples dataset_name mode fs)
         (conll_file_loc_fulltext dataset_name)
   \<and> snd (write_conll_samples samples dataset_name mode fs)
         (conll_file_loc_fulltext dataset_name) = Some (write_conll samples [])"
  by (simp add: write_conll_samples_files)

theorem fulltext_file_duplicates_mode_file_witness:
  "conll_file_loc_mode ''huric_modern'' ''test''
     = ''data/neural/huric_modern/huric_modern.test.syntaxnet.conll''
   \<and> conll_file_loc_fulltext ''huric_modern''
     = ''data/neural/huric_modern/huric_modern.fulltext.train.syntaxnet.conll''
   \<and> snd (write_conll_samples [ex_four_rows] ''huric_modern'' ''test'' Map.empty)
       ''data/neural/huric_modern/huric_modern.test.syntaxnet.conll''
     = snd (write_conll_samples [ex_four_rows] ''huric_modern'' ''test'' Map.empty)
       ''data/neural/huric_modern/huric_modern.fulltext.train.syntaxnet.conll''"
proof -
  have m: "conll_file_loc_mode ''huric_modern'' ''test''
     = ''data/neural/huric_modern/huric_modern.test.syntaxnet.conll''"
    by (simp add: conll_file_loc_mode_def out_path_def PATH_CONLL_def)
  have f: "conll_file_loc_fulltext ''huric_modern''
     = ''data/neural/huric_modern/huric_modern.fulltext.train.syntaxnet.conll''"
    by (simp add: conll_file_loc_fulltext_def out_path_def PATH_CONLL_def)
  from fulltext_file_duplicates_mode_file
    [of "[ex_four_rows]" "''huric_modern''" "''test''" Map.empty]
  show ?thesis unfolding m f by simp
qed

text \<open>
  C9: the tab-separated file is, row-set by row-set, the tab-joined rows each
  followed by a newline and then one more newline; when every row has at least
  two fields the call ends without exception and the \<open>.sents\<close> file holds
  per row-set the space-joined second fields and a newline. When moreover no
  field contains a newline, the tab-separated file has one line per row plus one
  per row-set, and the \<open>.sents\<close> file one line per row-set.
\<close>

theorem writer_line_structure:
  "snd (write_conll_samples samples dataset_name mode fs) (conll_file_loc_mode dataset_name mode)
     = Some (concat (map (\<lambda>seq. concat (map (\<lambda>s. str_join [CHR 0x09] s @ [CHR 0x0A]) seq)
                                 @ [CHR 0x0A]) samples))
   \<and> ((\<forall>seq \<in> set samples. \<forall>w \<in> set seq. 2 \<le> length w)
       \<longrightarrow> fst (write_conll_samples samples dataset_name mode fs) = None
         \<and> snd (write_conll_samples samples dataset_name mode fs)
               (conll_file_loc_sents dataset_name)
             = Some (concat (map (\<lambda>seq. str_join '' '' (map (\<lambda>w. w ! 1) seq) @ [CHR 0x0A])
                         samples)))
   \<and> ((\<forall>seq \<in> set samples. \<forall>w \<in> set seq. 2 \<le> length w \<and> (\<forall>x \<in> set w. CHR 0x0A \<notin> set x))
       \<longrightarrow> (\<exists>conll sents.
             snd (write_conll_samples samples dataset_name mode fs)
               (conll_file_loc_mode dataset_name mode) = Some conll
           \<and> count_list conll (CHR 0x0A) = sum_list (map (\<lambda>seq. length seq + 1) samples)
           \<and> snd (write_conll_samples samples dataset_name mode fs)
               (conll_file_loc_sents dataset_name) = Some sents
           \<and> count_list sents (CHR 0x0A) = length samples))"
proof (intro conjI impI)
  show "snd (write_conll_samples samples dataset_name mode fs)
      (conll_file_loc_mode dataset_name mode)
     = Some (concat (map (\<lambda>seq. concat (map (\<lambda>s. str_join [CHR 0x09] s @ [CHR 0x0A]) seq)
                                 @ [CHR 0x0A]) samples))"
    by (simp add: write_conll_samples_files write_conll_append)
next
  assume w: "\<forall>seq \<in> set samples. \<forall>w \<in> set seq. 2 \<le> length w"
  show "fst (write_conll_samples samples dataset_name mode fs) = None"
    by (simp add: write_conll_samples_files write_sents_append [OF w])
  show "snd (write_conll_samples samples dataset_name mode fs)
               (conll_file_loc_sents dataset_name)
             = Some (concat (map (\<lambda>seq. str_join '' '' (map (\<lambda>w. w ! 1) seq) @ [CHR 0x0A])
                         samples))"
    by (simp add: write_conll_samples_files write_sents_append [OF w])
next
  assume h: "\<forall>seq \<in> set samples. \<forall>w \<in> set seq. 2 \<le> length w \<and> (\<forall>x \<in> set w. CHR 0x0A \<notin> set x)"
  then have w: "\<forall>seq \<in> set samples. \<forall>w \<in> set seq. 2 \<le> length w"
    and n: "\<forall>seq \<in> set samples. \<forall>s \<in> set seq. \<forall>x \<in> set s. CHR 0x0A \<notin> set x"
    by blast+
  have c1: "count_list (write_conll samples []) (CHR 0x0A)
      = sum_list (map (\<lambda>seq. length seq + 1) samples)"
    by (rule count_file [OF n])
  have c2: "count_list (concat (map (\<lambda>seq. str_join '' '' (map (\<lambda>w. w ! 1) seq) @ [CHR 0x0A])
      samples)) (CHR 0x0A) = length samples"
    using h
  proof (induction samples)
    case Nil
    then show ?case by simp
  next
    case (Cons seq samples)
    have "\<forall>x \<in> set (map (\<lambda>w. w ! 1) seq). CHR 0x0A \<notin> set x"
    proof
      fix x assume "x \<in> set (map (\<lambda>w. w ! 1) seq)"
      then obtain w where w: "w \<in> set seq" "x = w ! 1" by auto
      with Cons.prems have "2 \<le> length w" "\<forall>x \<in> set w. CHR 0x0A \<notin> set x" by auto
      then have "w ! 1 \<in> set w" "\<forall>x \<in> set w. CHR 0x0A \<notin> set x" by simp_all
      with w show "CHR 0x0A \<notin> set x" by blast
    qed
    from count_join_space [OF this] Cons show ?case by simp
  qed
  show "\<exists>conll sents.
             snd (write_conll_samples samples dataset_name mode fs)
               (conll_file_loc_mode dataset_name mode) = Some conll
           \<and> count_list conll (CHR 0x0A) = sum_list (map (\<lambda>seq. length seq + 1) samples)
           \<and> snd (write_conll_samples samples dataset_name mode fs)
               (conll_file_loc_sents dataset_name) = Some sents
           \<and> count_list sents (CHR 0x0A) = length samples"
    using c1 c2 by (simp add: write_conll_samples_files write_sents_append [OF w])
qed

theorem writer_line_structure_witness:
  "(\<exists>conll sents.
         snd (write_conll_samples [ex_four_rows] ''huric'' ''test'' Map.empty)
           (conll_file_loc_mode ''huric'' ''test'') = Some conll
       \<and> count_list conll (CHR 0x0A) = 5
       \<and> snd (write_conll_samples [ex_four_rows] ''huric'' ''test'' Map.empty)
           (conll_file_loc_sents ''huric'') = Some sents
       \<and> count_list sents (CHR 0x0A) = 1)
   \<and> fst (write_conll_samples [ex_four_rows] ''huric'' ''test'' Map.empty) = None
   \<and> snd (write_conll_samples [ex_four_rows] ''huric'' ''test'' Map.empty)
           (conll_file_loc_sents ''huric'') = Some (''go to the kitchen'' @ [CHR 0x0A])"
proof -
  have h: "\<forall>seq \<in> set [ex_four_rows]. \<forall>w \<in> set seq.
      2 \<le> length w \<and> (\<forall>x \<in> set w. CHR 0x0A \<notin> set x)"
    by (simp add: ex_four_rows_def)
  have l: "length ex_four_rows = 4" by (simp add: ex_four_rows_def)
  have m: "map (\<lambda>w. w ! 1) ex_four_rows = [''go'', ''to'', ''the'', ''kitchen'']"
    by (simp add: ex_four_rows_def)
  from writer_line_structure [of "[ex_four_rows]" "''huric''" "''test''" Map.empty] h l m
  show ?thesis by auto
qed

end
